theory Spec2Isabelle
  imports Complex_Main
begin

section \<open>The ConnectN alpha-beta agent (alpha\_beta\_agent.py)\<close>

subsection \<open>Data model\<close>

text \<open>
  The agent reads four attributes of a board object: \<^verbatim>\<open>brd.board\<close> (a list of rows,
  indexed \<^verbatim>\<open>brd.board[j][i]\<close> with row \<open>j\<close> and column \<open>i\<close>), \<^verbatim>\<open>brd.w\<close>, \<^verbatim>\<open>brd.h\<close> and
  \<^verbatim>\<open>brd.player\<close>. Cell markers and player markers are Python integers (0 is an empty
  cell, 1 and 2 are the two players).
\<close>

record Board =
  board :: "int list list"
  w :: nat
  h :: nat
  player :: int

text \<open>
  The methods of the board class (\<^verbatim>\<open>get_outcome\<close>, \<^verbatim>\<open>is_any_line_at\<close>, \<^verbatim>\<open>free_cols\<close>,
  \<^verbatim>\<open>add_token\<close>) belong to the rules engine, whose module is not part of the agent's
  file. The agent's functions take them as a parameter: a record of the four methods.
  \<open>add_token R b c\<close> is the contents of board \<open>b\<close> after \<^verbatim>\<open>b.add_token(c)\<close>.
\<close>

record rules =
  get_outcome :: "Board \<Rightarrow> int"
  is_any_line_at :: "Board \<Rightarrow> nat \<Rightarrow> nat \<Rightarrow> bool"
  free_cols :: "Board \<Rightarrow> nat list"
  add_token :: "Board \<Rightarrow> nat \<Rightarrow> Board"

text \<open>The exceptions the agent's own code can raise.\<close>

datatype error = IndexError | TypeError

text \<open>A successor as \<^verbatim>\<open>get_successors\<close> builds it: the tuple \<^verbatim>\<open>(nb, col)\<close>.\<close>

type_synonym succ = "Board \<times> nat"

subsection \<open>heuristics\<close>

text \<open>Python list indexing at a non-negative index: out of range raises IndexError.\<close>

definition getitem :: "'a list \<Rightarrow> nat \<Rightarrow> error + 'a" where
  "getitem xs k = (if k < length xs then Inr (xs ! k) else Inl IndexError)"

text \<open>\<^verbatim>\<open>brd.board[j][i]\<close>\<close>

definition cell :: "Board \<Rightarrow> nat \<Rightarrow> nat \<Rightarrow> error + int" where
  "cell brd j i =
     (case getitem (board brd) j of
        Inl e \<Rightarrow> Inl e
      | Inr row \<Rightarrow> getitem row i)"

text \<open>
  The inner loop \<^verbatim>\<open>for j in range(0, brd.h)\<close> of the positional scan, for a fixed column
  \<open>i\<close>, threading \<^verbatim>\<open>severity\<close>.
\<close>

fun scan_j :: "rules \<Rightarrow> Board \<Rightarrow> int \<Rightarrow> int \<Rightarrow> nat \<Rightarrow> nat list \<Rightarrow> int \<Rightarrow> error + int" where
  "scan_j R brd me opponent i [] severity = Inr severity"
| "scan_j R brd me opponent i (j # js) severity =
     (case cell brd j i of
        Inl e \<Rightarrow> Inl e
      | Inr c \<Rightarrow>
          if c \<noteq> 0 then
            (if is_any_line_at R brd i j then
               (if c = opponent then scan_j R brd me opponent i js (severity - 5)
                else if c = me then scan_j R brd me opponent i js (severity + 1)
                else scan_j R brd me opponent i js (severity + 0))
             else scan_j R brd me opponent i js severity)
          else scan_j R brd me opponent i js severity)"

text \<open>The outer loop \<^verbatim>\<open>for i in range(0, brd.w)\<close>.\<close>

fun scan_i :: "rules \<Rightarrow> Board \<Rightarrow> int \<Rightarrow> int \<Rightarrow> nat list \<Rightarrow> int \<Rightarrow> error + int" where
  "scan_i R brd me opponent [] severity = Inr severity"
| "scan_i R brd me opponent (i # ics) severity =
     (case scan_j R brd me opponent i [0..<h brd] severity of
        Inl e \<Rightarrow> Inl e
      | Inr s \<Rightarrow> scan_i R brd me opponent ics s)"

definition heuristics :: "rules \<Rightarrow> Board \<Rightarrow> int \<Rightarrow> error + int" where
  "heuristics R brd plr =
     (let me = (if plr = 1 then 1 else 2);
          opponent = (if plr = 1 then 2 else 1)
      in if get_outcome R brd = me \<and> player brd = opponent then Inr 99999999
         else if get_outcome R brd = opponent \<and> player brd = me then Inr (- 99999999)
         else scan_i R brd me opponent [0..<w brd] 0)"

subsection \<open>get\_successors\<close>

text \<open>
  \<^verbatim>\<open>get_successors\<close> clones the board (\<^verbatim>\<open>brd.copy()\<close>) and mutates the clone in place
  (\<^verbatim>\<open>nb.add_token(col)\<close>). To speak about aliasing, board objects live in a store: an
  address is an index into the list of allocated boards. \<^verbatim>\<open>copy\<close> allocates a fresh
  object with the contents of the receiver (a deep copy, as the rules engine promises);
  \<^verbatim>\<open>add_token\<close> overwrites the contents of the receiver.
\<close>

type_synonym store = "Board list"

definition copy :: "store \<Rightarrow> nat \<Rightarrow> store \<times> nat" where
  "copy st a = (st @ [st ! a], length st)"

definition add_token_st :: "rules \<Rightarrow> store \<Rightarrow> nat \<Rightarrow> nat \<Rightarrow> store" where
  "add_token_st R st a col = st[a := add_token R (st ! a) col]"

text \<open>The loop \<^verbatim>\<open>for col in freecols\<close>, threading the store and the list \<^verbatim>\<open>succ\<close>.\<close>

fun succ_loop_st ::
  "rules \<Rightarrow> nat \<Rightarrow> nat list \<Rightarrow> store \<Rightarrow> (nat \<times> nat) list \<Rightarrow> store \<times> (nat \<times> nat) list" where
  "succ_loop_st R brd [] st succ = (st, succ)"
| "succ_loop_st R brd (col # cols) st succ =
     (case copy st brd of
        (st1, nb) \<Rightarrow>
          succ_loop_st R brd cols (add_token_st R st1 nb col) (succ @ [(nb, col)]))"

definition get_successors_st :: "rules \<Rightarrow> store \<Rightarrow> nat \<Rightarrow> store \<times> (nat \<times> nat) list" where
  "get_successors_st R st brd =
     (let freecols = free_cols R (st ! brd)
      in if freecols = [] then (st, [])
         else succ_loop_st R brd freecols st [])"

text \<open>
  The same function on board contents. The search below only reads the boards it is
  handed, so it is written over contents; \<open>get_successors_st_contents\<close> relates the two.
\<close>

fun succ_loop :: "rules \<Rightarrow> Board \<Rightarrow> nat list \<Rightarrow> succ list \<Rightarrow> succ list" where
  "succ_loop R brd [] succ = succ"
| "succ_loop R brd (col # cols) succ =
     succ_loop R brd cols (succ @ [(add_token R brd col, col)])"

definition get_successors :: "rules \<Rightarrow> Board \<Rightarrow> succ list" where
  "get_successors R brd =
     (let freecols = free_cols R brd
      in if freecols = [] then []
         else succ_loop R brd freecols [])"

subsection \<open>maxValue and minValue\<close>

text \<open>
  \<^verbatim>\<open>terminalCondition\<close> returns \<open>-1\<close> at depth 0 and falls off its end (None) otherwise.
  The depth is a natural number: \<^verbatim>\<open>makeMove\<close> passes the values of \<^verbatim>\<open>range(0, max_depth)\<close>
  and every recursive call passes \<open>n - 1\<close> from a depth that is not 0.
\<close>

definition terminalCondition :: "nat \<Rightarrow> int option" where
  "terminalCondition n = (if n = 0 then Some (- 1) else None)"

text \<open>
  Each searcher returns the pair \<^verbatim>\<open>(bestBoard, bestMove)\<close>: a successor tuple or None, and
  a score. The \<^verbatim>\<open>for i in self.get_successors(brd)\<close> loops are \<open>max_loop\<close> and \<open>min_loop\<close>;
  their argument \<open>d\<close> is the depth \<open>n - 1\<close> handed to the recursive call, and they thread
  \<^verbatim>\<open>alpha\<close>, the running best score and the running best successor.
\<close>

function maxValue ::
    "rules \<Rightarrow> Board \<Rightarrow> nat \<Rightarrow> int \<Rightarrow> int \<Rightarrow> int \<Rightarrow> error + (succ option \<times> int)"
  and max_loop ::
    "rules \<Rightarrow> succ list \<Rightarrow> nat \<Rightarrow> int \<Rightarrow> int \<Rightarrow> int \<Rightarrow> int \<Rightarrow> succ option
       \<Rightarrow> error + (succ option \<times> int)"
  and minValue ::
    "rules \<Rightarrow> Board \<Rightarrow> nat \<Rightarrow> int \<Rightarrow> int \<Rightarrow> int \<Rightarrow> error + (succ option \<times> int)"
  and min_loop ::
    "rules \<Rightarrow> succ list \<Rightarrow> nat \<Rightarrow> int \<Rightarrow> int \<Rightarrow> int \<Rightarrow> int \<Rightarrow> succ option
       \<Rightarrow> error + (succ option \<times> int)"
where
  "maxValue R brd n alpha beta plr =
     (if terminalCondition n = Some (- 1) then
        (case heuristics R brd plr of
           Inl e \<Rightarrow> Inl e
         | Inr v \<Rightarrow> Inr (None, v))
      else max_loop R (get_successors R brd) (n - 1) alpha beta plr (- 999999999) None)"
| "max_loop R [] d alpha beta plr bestMove bestBoard = Inr (bestBoard, bestMove)"
| "max_loop R (i # rest) d alpha beta plr bestMove bestBoard =
     (case minValue R (fst i) d alpha beta plr of
        Inl e \<Rightarrow> Inl e
      | Inr (brd', move) \<Rightarrow>
          (let bestMove' = (if move > bestMove then move else bestMove);
               bestBoard' = (if move > bestMove then Some i else bestBoard)
           in if bestMove' \<ge> beta then Inr (bestBoard', bestMove')
              else max_loop R rest d (if bestMove' \<ge> alpha then bestMove' else alpha)
                     beta plr bestMove' bestBoard'))"
| "minValue R brd n alpha beta plr =
     (if terminalCondition n = Some (- 1) then
        (case heuristics R brd plr of
           Inl e \<Rightarrow> Inl e
         | Inr v \<Rightarrow> Inr (None, v))
      else min_loop R (get_successors R brd) (n - 1) alpha beta plr 999999999 None)"
| "min_loop R [] d alpha beta plr worstMove worstBoard = Inr (worstBoard, worstMove)"
| "min_loop R (i # rest) d alpha beta plr worstMove worstBoard =
     (case maxValue R (fst i) d alpha beta plr of
        Inl e \<Rightarrow> Inl e
      | Inr (brd', move) \<Rightarrow>
          (let worstMove' = (if move < worstMove then move else worstMove);
               worstBoard' = (if move < worstMove then Some i else worstBoard)
           in if worstMove' \<le> beta then Inr (worstBoard', worstMove')
              else min_loop R rest d (if worstMove' \<le> alpha then worstMove' else alpha)
                     beta plr worstMove' worstBoard'))"
  by pat_completeness auto
termination
  by (relation "measures
        [\<lambda>x. case x of
               Inl (Inl (R, brd, n, rest)) \<Rightarrow> 2 * n
             | Inl (Inr (R, ss, d, rest)) \<Rightarrow> 2 * d + 1
             | Inr (Inl (R, brd, n, rest)) \<Rightarrow> 2 * n
             | Inr (Inr (R, ss, d, rest)) \<Rightarrow> 2 * d + 1,
         \<lambda>x. case x of
               Inl (Inl (R, brd, n, rest)) \<Rightarrow> 0
             | Inl (Inr (R, ss, d, rest)) \<Rightarrow> length ss
             | Inr (Inl (R, brd, n, rest)) \<Rightarrow> 0
             | Inr (Inr (R, ss, d, rest)) \<Rightarrow> length ss]")
     (auto simp: terminalCondition_def split: if_splits)

text \<open>
  The number of successors \<^verbatim>\<open>minValue\<close>'s loop examines, that is, hands to \<^verbatim>\<open>maxValue\<close>,
  before it returns: the control flow of \<open>min_loop\<close>, counting iterations.
\<close>

fun min_examined :: "rules \<Rightarrow> succ list \<Rightarrow> nat \<Rightarrow> int \<Rightarrow> int \<Rightarrow> int \<Rightarrow> int \<Rightarrow> nat" where
  "min_examined R [] d alpha beta plr worstMove = 0"
| "min_examined R (i # rest) d alpha beta plr worstMove =
     (case maxValue R (fst i) d alpha beta plr of
        Inl e \<Rightarrow> 1
      | Inr (brd', move) \<Rightarrow>
          (let worstMove' = (if move < worstMove then move else worstMove)
           in if worstMove' \<le> beta then 1
              else 1 + min_examined R rest d (if worstMove' \<le> alpha then worstMove' else alpha)
                         beta plr worstMove'))"

definition minValue_examined :: "rules \<Rightarrow> Board \<Rightarrow> nat \<Rightarrow> int \<Rightarrow> int \<Rightarrow> int \<Rightarrow> nat" where
  "minValue_examined R brd n alpha beta plr =
     (if terminalCondition n = Some (- 1) then 0
      else min_examined R (get_successors R brd) (n - 1) alpha beta plr 999999999)"

text \<open>
  A search of depth \<open>d\<close> from a board stays on the board when it never comes to a board
  without successors while depth remains, and the boards it evaluates at depth 0 have at
  most 99999999 cells.
\<close>

fun within_board :: "rules \<Rightarrow> Board \<Rightarrow> nat \<Rightarrow> bool" where
  "within_board R brd 0 = (int (w brd * h brd) \<le> 99999999)"
| "within_board R brd (Suc d) =
     (get_successors R brd \<noteq> [] \<and>
      list_all (\<lambda>s. within_board R (fst s) d) (get_successors R brd))"

subsection \<open>makeMove\<close>

text \<open>
  The variable \<^verbatim>\<open>bestMove\<close> holds the integer 0 until the first iteration assigns it the
  searcher's first component: a successor tuple or None.
\<close>

datatype bestmove = Initial int | Result "succ option"

text \<open>\<^verbatim>\<open>board[1]\<close>: a tuple gives its column, None raises TypeError.\<close>

definition subscript :: "succ option \<Rightarrow> error + nat" where
  "subscript bd = (case bd of None \<Rightarrow> Inl TypeError | Some (nb, col) \<Rightarrow> Inr col)"

text \<open>\<^verbatim>\<open>bestMove[1]\<close>: an integer is not subscriptable either.\<close>

definition subscript_best :: "bestmove \<Rightarrow> error + nat" where
  "subscript_best bm = (case bm of Initial k \<Rightarrow> Inl TypeError | Result bd \<Rightarrow> subscript bd)"

text \<open>
  A log entry for a top-level search call: which searcher is called, and its arguments
  \<open>n\<close>, \<open>alpha\<close>, \<open>beta\<close> and \<open>player\<close>.
\<close>

datatype searcher = MaxValue | MinValue

type_synonym call = "searcher \<times> nat \<times> int \<times> int \<times> int"

text \<open>
  The loop \<^verbatim>\<open>for i in range (0, self.max_depth)\<close>. The wall clock is a parameter:
  \<open>curTime i\<close> is the value of \<^verbatim>\<open>time.time() - clock\<close> read at the end of iteration \<open>i\<close>.
  Besides the function's result the loop returns the log of the search calls it made.
\<close>

fun makeMove_loop ::
  "rules \<Rightarrow> Board \<Rightarrow> (nat \<Rightarrow> real) \<Rightarrow> nat list \<Rightarrow> int \<Rightarrow> bestmove \<Rightarrow> call list
     \<Rightarrow> (error + nat) \<times> call list" where
  "makeMove_loop R brd curTime [] bestSeverity bestMove calls = (subscript_best bestMove, calls)"
| "makeMove_loop R brd curTime (i # rest) bestSeverity bestMove calls =
     (let calls' = calls @ [(MinValue, i, - 99999999, 99999999, player brd)]
      in case minValue R brd i (- 99999999) 99999999 (player brd) of
           Inl e \<Rightarrow> (Inl e, calls')
         | Inr (bd, state) \<Rightarrow>
             if state \<ge> 9999999 then (subscript bd, calls')
             else if state \<le> - 9999999 then (subscript bd, calls')
             else
               (let bestSeverity' = (if state > bestSeverity then state else bestSeverity);
                    bestMove' = (if state > bestSeverity then Result bd else Result bd)
                in if curTime i > 12 then (subscript_best bestMove', calls')
                   else makeMove_loop R brd curTime rest bestSeverity' bestMove' calls'))"

definition makeMove_logged ::
  "rules \<Rightarrow> int \<Rightarrow> (nat \<Rightarrow> real) \<Rightarrow> Board \<Rightarrow> (error + nat) \<times> call list" where
  "makeMove_logged R max_depth curTime brd =
     makeMove_loop R brd curTime [0..<nat max_depth] 0 (Initial 0) []"

definition makeMove :: "rules \<Rightarrow> int \<Rightarrow> (nat \<Rightarrow> real) \<Rightarrow> Board \<Rightarrow> error + nat" where
  "makeMove R max_depth curTime brd = fst (makeMove_logged R max_depth curTime brd)"

definition makeMove_calls :: "rules \<Rightarrow> int \<Rightarrow> (nat \<Rightarrow> real) \<Rightarrow> Board \<Rightarrow> call list" where
  "makeMove_calls R max_depth curTime brd = snd (makeMove_logged R max_depth curTime brd)"

subsection \<open>Plain minimax, as the specification words it\<close>

text \<open>
  The reference the pruning searcher is compared with: a node is terminal at depth 0 or
  when it has no successor, and is then scored by the evaluator; otherwise a maximizing
  node takes the maximum and a minimizing node the minimum of all its successors' scores,
  with no bounds and no cutoff. An exception of the evaluator propagates.
\<close>

fun collect :: "(error + 'a) list \<Rightarrow> error + 'a list" where
  "collect [] = Inr []"
| "collect (x # xs) =
     (case x of
        Inl e \<Rightarrow> Inl e
      | Inr v \<Rightarrow> (case collect xs of Inl e \<Rightarrow> Inl e | Inr vs \<Rightarrow> Inr (v # vs)))"

definition maximum :: "int list \<Rightarrow> int" where
  "maximum vs = fold max (tl vs) (hd vs)"

definition minimum :: "int list \<Rightarrow> int" where
  "minimum vs = fold min (tl vs) (hd vs)"

fun minimax_max :: "rules \<Rightarrow> Board \<Rightarrow> nat \<Rightarrow> int \<Rightarrow> error + int"
  and minimax_min :: "rules \<Rightarrow> Board \<Rightarrow> nat \<Rightarrow> int \<Rightarrow> error + int" where
  "minimax_max R brd n plr =
     (if n = 0 \<or> get_successors R brd = [] then heuristics R brd plr
      else map_sum id maximum
             (collect (map (\<lambda>i. minimax_min R (fst i) (n - 1) plr) (get_successors R brd))))"
| "minimax_min R brd n plr =
     (if n = 0 \<or> get_successors R brd = [] then heuristics R brd plr
      else map_sum id minimum
             (collect (map (\<lambda>i. minimax_max R (fst i) (n - 1) plr) (get_successors R brd))))"

subsection \<open>A rules engine for concrete boards\<close>

text \<open>
  Modelled from the spec: the board class (module \<^verbatim>\<open>board\<close>, with \<^verbatim>\<open>free_cols\<close>, \<^verbatim>\<open>add_token\<close>,
  \<^verbatim>\<open>get_outcome\<close> and \<^verbatim>\<open>is_any_line_at\<close>) is missing from the sources. The definitions below
  follow the collaborator contract of the specification's section 6 for a game with
  target connection length \<open>n\<close>; row 0 is the bottom row. They are used to run the agent
  on concrete boards; the general theorems hold for every rules engine.
\<close>

text \<open>The marker at column \<open>x\<close>, row \<open>y\<close>, if the cell is on the grid.\<close>

definition token_at :: "Board \<Rightarrow> int \<Rightarrow> int \<Rightarrow> int option" where
  "token_at brd x y =
     (if 0 \<le> x \<and> 0 \<le> y \<and> nat y < length (board brd) \<and> nat x < length (board brd ! nat y)
      then Some (board brd ! nat y ! nat x) else None)"

definition directions :: "(int \<times> int) list" where
  "directions = [(1, 0), (0, 1), (1, 1), (1, - 1)]"

text \<open>The \<open>n\<close> cells of the line that starts at \<open>(x, y)\<close> and runs in direction \<open>d\<close>.\<close>

definition line_from :: "nat \<Rightarrow> int \<Rightarrow> int \<Rightarrow> int \<times> int \<Rightarrow> (int \<times> int) list" where
  "line_from n x y d = map (\<lambda>k. (x + int k * fst d, y + int k * snd d)) [0..<n]"

text \<open>
  \<^verbatim>\<open>freeColumns()\<close>: the non-full columns in ascending order. A column is not full when
  some row has an empty cell in it.
\<close>

definition connect_free_cols :: "Board \<Rightarrow> nat list" where
  "connect_free_cols brd =
     filter (\<lambda>x. list_ex (\<lambda>row. getitem row x = Inr 0) (board brd)) [0..<w brd]"

text \<open>
  \<^verbatim>\<open>dropToken(column)\<close>: the token of the player to move goes into the lowest open cell
  of the column, and the turn passes to the opponent.
\<close>

fun drop_token :: "int list list \<Rightarrow> nat \<Rightarrow> int \<Rightarrow> int list list" where
  "drop_token [] x t = []"
| "drop_token (row # rows) x t =
     (if getitem row x = Inr 0 then row[x := t] # rows else row # drop_token rows x t)"

definition connect_add_token :: "Board \<Rightarrow> nat \<Rightarrow> Board" where
  "connect_add_token brd x =
     brd\<lparr>board := drop_token (board brd) x (player brd),
         player := (if player brd = 1 then 2 else 1)\<rparr>"

text \<open>
  \<^verbatim>\<open>outcome()\<close>: a marker wins when \<open>n\<close> of its tokens stand in a row, column or diagonal.
  The result is the marker of the first winning line found (columns left to right, rows
  bottom up) and 0 when there is none; the agent compares the outcome with the markers
  1 and 2 only, so a draw and an undecided game are both 0.
\<close>

definition wins_at :: "nat \<Rightarrow> Board \<Rightarrow> nat \<Rightarrow> nat \<Rightarrow> bool" where
  "wins_at n brd x y =
     (case token_at brd (int x) (int y) of
        None \<Rightarrow> False
      | Some t \<Rightarrow>
          t \<noteq> 0 \<and>
          list_ex (\<lambda>d. list_all (\<lambda>c. token_at brd (fst c) (snd c) = Some t)
                          (line_from n (int x) (int y) d)) directions)"

fun first_win :: "nat \<Rightarrow> Board \<Rightarrow> (nat \<times> nat) list \<Rightarrow> int" where
  "first_win n brd [] = 0"
| "first_win n brd (c # cs) =
     (if wins_at n brd (fst c) (snd c) then board brd ! snd c ! fst c
      else first_win n brd cs)"

definition connect_outcome :: "nat \<Rightarrow> Board \<Rightarrow> int" where
  "connect_outcome n brd = first_win n brd (List.product [0..<w brd] [0..<h brd])"

text \<open>
  \<^verbatim>\<open>completableLineAt(x, y)\<close>: the cell takes part in a line of \<open>n\<close> cells on the grid in which
  every cell is empty or holds the cell's own marker, so the line can still be completed.
\<close>

definition open_line :: "Board \<Rightarrow> int \<Rightarrow> (int \<times> int) list \<Rightarrow> bool" where
  "open_line brd t cs =
     list_all (\<lambda>c. token_at brd (fst c) (snd c) = Some t \<or> token_at brd (fst c) (snd c) = Some 0) cs"

definition connect_is_any_line_at :: "nat \<Rightarrow> Board \<Rightarrow> nat \<Rightarrow> nat \<Rightarrow> bool" where
  "connect_is_any_line_at n brd x y =
     (case token_at brd (int x) (int y) of
        None \<Rightarrow> False
      | Some t \<Rightarrow>
          list_ex (\<lambda>d. list_ex (\<lambda>k. open_line brd t
                          (line_from n (int x - int k * fst d) (int y - int k * snd d) d))
                        [0..<n]) directions)"

definition connect :: "nat \<Rightarrow> rules" where
  "connect n =
     \<lparr>get_outcome = connect_outcome n,
      is_any_line_at = connect_is_any_line_at n,
      free_cols = connect_free_cols,
      add_token = connect_add_token\<rparr>"

text \<open>The clock of a machine on which no iteration ends later than 12 seconds in.\<close>

definition fast :: "nat \<Rightarrow> real" where
  "fast i = 0"

subsection \<open>Concrete boards\<close>

text \<open>
  A board of a game with target length 2 that player 1 has won, with player 2 to move.
  Its width is one more than its rows are long, so the positional scan of this board
  would run off the grid.
\<close>

definition won_board :: Board where
  "won_board = \<lparr>board = [[1, 1]], w = 3, h = 1, player = 2\<rparr>"

text \<open>
  A board of a game with target length 3 in which nobody has won. The tokens of the
  bottom row lie on no line of three that can still be completed; the two tokens of the
  upper row do.
\<close>

definition mid_board :: Board where
  "mid_board = \<lparr>board = [[1, 2, 1, 2, 1], [1, 0, 0, 0, 2]], w = 5, h = 2, player = 2\<rparr>"

subsection \<open>The positional score, as the specification words it\<close>

text \<open>The grid has at least \<open>h\<close> rows, and each of the first \<open>h\<close> rows at least \<open>w\<close> cells.\<close>

definition grid_ok :: "Board \<Rightarrow> bool" where
  "grid_ok brd =
     (h brd \<le> length (board brd) \<and>
      list_all (\<lambda>row. w brd \<le> length row) (take (h brd) (board brd)))"

text \<open>What a cell with marker \<open>c\<close> is worth to the root player: +1 its own, -5 the opponent's.\<close>

definition cell_points :: "int \<Rightarrow> int \<Rightarrow> int" where
  "cell_points plr c = (if c = plr then 1 else if c = 3 - plr then - 5 else 0)"

text \<open>The occupied cells \<open>(column, row)\<close> that lie on a line that can still be completed.\<close>

definition scored_cells :: "rules \<Rightarrow> Board \<Rightarrow> (nat \<times> nat) list" where
  "scored_cells R brd =
     filter (\<lambda>c. board brd ! snd c ! fst c \<noteq> 0 \<and> is_any_line_at R brd (fst c) (snd c))
       (List.product [0..<w brd] [0..<h brd])"

definition positional_score :: "rules \<Rightarrow> Board \<Rightarrow> int \<Rightarrow> int" where
  "positional_score R brd plr =
     sum_list (map (\<lambda>c. cell_points plr (board brd ! snd c ! fst c)) (scored_cells R brd))"

text \<open>What one iteration of the scan adds to \<^verbatim>\<open>severity\<close> on a cell of the grid.\<close>

definition scan_points :: "rules \<Rightarrow> Board \<Rightarrow> int \<Rightarrow> int \<Rightarrow> nat \<Rightarrow> nat \<Rightarrow> int" where
  "scan_points R brd me opponent i j =
     (let c = board brd ! j ! i
      in if c \<noteq> 0 \<and> is_any_line_at R brd i j
         then (if c = opponent then - 5 else if c = me then 1 else 0) else 0)"

subsection \<open>The colour-swapped mirror of a board\<close>

definition swap_marker :: "int \<Rightarrow> int" where
  "swap_marker m = (if m = 1 then 2 else if m = 2 then 1 else m)"

definition mirror :: "Board \<Rightarrow> Board" where
  "mirror brd =
     brd\<lparr>board := map (map swap_marker) (board brd), player := swap_marker (player brd)\<rparr>"

text \<open>
  A 3 x 3 board of a game with target length 3: two cells are free, in columns 0 and 2,
  nobody has won, and player 2 is to move.
\<close>

definition nearly_full :: Board where
  "nearly_full = \<lparr>board = [[1, 2, 1], [1, 2, 2], [0, 1, 0]], w = 3, h = 3, player = 2\<rparr>"

text \<open>
  The same game after player 2 has played column 0 and player 1 column 2: the board is
  full and nobody has won.
\<close>

definition full_board :: Board where
  "full_board = \<lparr>board = [[1, 2, 1], [1, 2, 2], [2, 1, 1]], w = 3, h = 3, player = 2\<rparr>"

text \<open>
  A board of a game with target length 3 with player 2 to move: columns 0 and 3 are free,
  and a token in column 3 completes player 2's bottom row, while one in column 0 wins
  nothing.
\<close>

definition threat :: Board where
  "threat = \<lparr>board = [[1, 2, 2, 0], [0, 1, 1, 0]], w = 4, h = 2, player = 2\<rparr>"

text \<open>
  A board of a game with target length 3 with player 1 to move: columns 0 and 3 are free,
  and player 2 completes the bottom row in whichever of the two player 1 leaves open.
\<close>

definition double_threat :: Board where
  "double_threat =
     \<lparr>board = [[0, 2, 2, 0, 1], [0, 1, 1, 0, 2]], w = 5, h = 2, player = 1\<rparr>"

text \<open>
  A board of a game with target length 3 with player 1 to move: all four columns are
  free, and a token in column 3 completes player 1's bottom row.
\<close>

definition win_in_one :: Board where
  "win_in_one =
     \<lparr>board = [[2, 1, 1, 0], [0, 2, 0, 0], [0, 0, 0, 0]], w = 4, h = 3, player = 1\<rparr>"

text \<open>The column and the score of a search result, leaving out the successor's board.\<close>

definition column_score :: "error + (succ option \<times> int) \<Rightarrow> error + (nat option \<times> int)" where
  "column_score r = map_sum id (map_prod (map_option snd) id) r"

section \<open>Properties\<close>

subsection \<open>The evaluator\<close>

text \<open>
  Claim C6. For a root player 1 or 2 with opponent \<open>3 - plr\<close>: when the outcome of the
  board is the root player and the opponent is to move, \<open>heuristics\<close> returns the WIN
  sentinel 99999999; when the outcome is the opponent and the root player is to move, it
  returns the LOSS sentinel -99999999. Both hold for every grid, also one on which the
  positional scan would raise: the checks come first and end the evaluation.
\<close>

theorem heuristics_win_loss_first:
  assumes "plr = 1 \<or> plr = 2"
  shows "(get_outcome R brd = plr \<and> player brd = 3 - plr
            \<longrightarrow> heuristics R brd plr = Inr 99999999) \<and>
         (get_outcome R brd = 3 - plr \<and> player brd = plr
            \<longrightarrow> heuristics R brd plr = Inr (- 99999999))"
  using assms by (auto simp: heuristics_def)

theorem heuristics_win_loss_first_witness:
  "heuristics (connect 2) won_board 1 = Inr 99999999 \<and>
   heuristics (connect 2) won_board 2 = Inr (- 99999999) \<and>
   scan_i (connect 2) won_board 1 2 [0..<w won_board] 0 = Inl IndexError"
proof -
  have o: "get_outcome (connect 2) won_board = 1"
    by code_simp
  have p: "player won_board = 2"
    by (simp add: won_board_def)
  have s: "scan_i (connect 2) won_board 1 2 [0..<w won_board] 0 = Inl IndexError"
    by code_simp
  from heuristics_win_loss_first [of 1 "connect 2" won_board] o p
  have a: "heuristics (connect 2) won_board 1 = Inr 99999999"
    by simp
  from heuristics_win_loss_first [of 2 "connect 2" won_board] o p
  have b: "heuristics (connect 2) won_board 2 = Inr (- 99999999)"
    by simp
  from a b s show ?thesis by simp
qed

subsection \<open>The positional scan\<close>

lemma cell_in_grid:
  assumes "grid_ok brd" "i < w brd" "j < h brd"
  shows "cell brd j i = Inr (board brd ! j ! i)"
proof -
  from assms have j: "j < length (board brd)"
    by (simp add: grid_ok_def)
  from assms have "w brd \<le> length (take (h brd) (board brd) ! j)"
    by (simp add: grid_ok_def list_all_length)
  with assms have "i < length (board brd ! j)"
    by simp
  with j show ?thesis
    by (simp add: cell_def getitem_def)
qed

lemma scan_j_sum:
  assumes "grid_ok brd" "i < w brd" "\<forall>j \<in> set js. j < h brd"
  shows "scan_j R brd me opponent i js s =
           Inr (s + sum_list (map (scan_points R brd me opponent i) js))"
  using assms(3)
proof (induction js arbitrary: s)
  case Nil
  then show ?case by simp
next
  case (Cons j js)
  then have c: "cell brd j i = Inr (board brd ! j ! i)"
    using assms(1,2) by (simp add: cell_in_grid)
  from Cons show ?case
    by (simp add: c scan_points_def Let_def)
qed

lemma scan_i_sum:
  assumes "grid_ok brd" "\<forall>i \<in> set ics. i < w brd"
  shows "scan_i R brd me opponent ics s =
           Inr (s + sum_list (map (\<lambda>i. sum_list (map (scan_points R brd me opponent i) [0..<h brd])) ics))"
  using assms(2)
proof (induction ics arbitrary: s)
  case Nil
  then show ?case by simp
next
  case (Cons i ics)
  then show ?case
    using assms(1) by (simp add: scan_j_sum)
qed

lemma sum_list_product:
  "sum_list (map f (List.product xs ys)) = sum_list (map (\<lambda>x. sum_list (map (\<lambda>y. f (x, y)) ys)) xs)"
  by (induction xs) (simp_all add: comp_def)

lemma positional_score_sums:
  assumes "plr = 1 \<or> plr = 2"
  shows "positional_score R brd plr =
      sum_list (map (\<lambda>i. sum_list (map (scan_points R brd plr (3 - plr) i) [0..<h brd])) [0..<w brd])"
proof -
  have "positional_score R brd plr =
      sum_list (map (\<lambda>c. if board brd ! snd c ! fst c \<noteq> 0 \<and> is_any_line_at R brd (fst c) (snd c)
                       then cell_points plr (board brd ! snd c ! fst c) else 0)
                 (List.product [0..<w brd] [0..<h brd]))"
    by (simp add: positional_score_def scored_cells_def sum_list_map_filter')
  also have "\<dots> = sum_list (map (\<lambda>c. scan_points R brd plr (3 - plr) (fst c) (snd c))
                 (List.product [0..<w brd] [0..<h brd]))"
    using assms by (intro arg_cong[where f=sum_list] map_cong) (auto simp: scan_points_def cell_points_def Let_def)
  finally show ?thesis
    by (simp add: sum_list_product)
qed

text \<open>
  Claim C7. On a board whose grid covers \<open>w\<close> columns and \<open>h\<close> rows and that neither player
  has won, \<open>heuristics\<close> for root player 1 or 2 returns the positional score: the sum, over
  the occupied cells that lie on a line that can still be completed, of +1 for a cell of
  the root player and -5 for a cell of the opponent.
\<close>

theorem heuristics_positional:
  assumes "plr = 1 \<or> plr = 2" and "grid_ok brd"
    and "get_outcome R brd \<noteq> 1" and "get_outcome R brd \<noteq> 2"
  shows "heuristics R brd plr = Inr (positional_score R brd plr)"
proof -
  have "heuristics R brd plr = scan_i R brd plr (3 - plr) [0..<w brd] 0"
    using assms(1,3,4) by (auto simp: heuristics_def)
  also have "\<dots> = Inr (sum_list (map (\<lambda>i. sum_list (map (scan_points R brd plr (3 - plr) i) [0..<h brd])) [0..<w brd]))"
    using assms(2) by (simp add: scan_i_sum)
  finally show ?thesis
    using assms(1) by (simp add: positional_score_sums)
qed


theorem heuristics_positional_witness:
  "grid_ok mid_board \<and> get_outcome (connect 3) mid_board = 0 \<and>
   scored_cells (connect 3) mid_board = [(0, 1), (4, 1)] \<and>
   heuristics (connect 3) mid_board 1 = Inr (- 4) \<and>
   heuristics (connect 3) mid_board 2 = Inr (- 4)"
proof -
  have g: "grid_ok mid_board"
    by code_simp
  have o: "get_outcome (connect 3) mid_board = 0"
    by code_simp
  have c: "scored_cells (connect 3) mid_board = [(0, 1), (4, 1)]"
    by code_simp
  have p1: "positional_score (connect 3) mid_board 1 = - 4"
    by code_simp
  have p2: "positional_score (connect 3) mid_board 2 = - 4"
    by code_simp
  from heuristics_positional [of 1 mid_board "connect 3"] g o p1
  have a: "heuristics (connect 3) mid_board 1 = Inr (- 4)"
    by simp
  from heuristics_positional [of 2 mid_board "connect 3"] g o p2
  have b: "heuristics (connect 3) mid_board 2 = Inr (- 4)"
    by simp
  from g o c a b show ?thesis by simp
qed

subsection \<open>Colour symmetry\<close>

lemma swap_marker_eq_iff: "swap_marker a = swap_marker b \<longleftrightarrow> a = b"
  by (auto simp: swap_marker_def split: if_splits)

lemma swap_marker_twice: "swap_marker (swap_marker a) = a"
  by (simp add: swap_marker_def)

lemma swap_marker_zero: "swap_marker a = 0 \<longleftrightarrow> a = 0"
  by (simp add: swap_marker_def)

lemma cell_mirror: "cell (mirror brd) j i = map_sum id swap_marker (cell brd j i)"
  by (simp add: cell_def getitem_def mirror_def)

lemma scan_j_mirror:
  assumes "\<forall>i j. is_any_line_at R (mirror brd) i j = is_any_line_at R brd i j"
  shows "scan_j R (mirror brd) (swap_marker me) (swap_marker opponent) i js s =
         scan_j R brd me opponent i js s"
proof (induction js arbitrary: s)
  case Nil
  then show ?case by simp
next
  case (Cons j js)
  show ?case
  proof (cases "cell brd j i")
    case (Inl e)
    then show ?thesis by (simp add: cell_mirror)
  next
    case (Inr c)
    then show ?thesis
      using assms Cons.IH
      by (simp add: cell_mirror swap_marker_eq_iff swap_marker_zero)
  qed
qed

lemma scan_i_mirror:
  assumes "\<forall>i j. is_any_line_at R (mirror brd) i j = is_any_line_at R brd i j"
  shows "scan_i R (mirror brd) (swap_marker me) (swap_marker opponent) ics s =
         scan_i R brd me opponent ics s"
proof (induction ics arbitrary: s)
  case Nil
  then show ?case by simp
next
  case (Cons i ics)
  have hm: "h (mirror brd) = h brd"
    by (simp add: mirror_def)
  show ?case
    using Cons.IH by (simp add: scan_j_mirror [OF assms] hm split: sum.split)
qed

text \<open>
  Claim C8. Let the mirror of a board exchange the markers 1 and 2 in every cell and in
  the player to move, let the rules engine report the exchanged outcome for it, and the
  same answer about lines at every cell. Then evaluating the mirror for the other player
  gives what evaluating the board for player \<open>plr\<close> gives.
\<close>

theorem heuristics_mirror:
  assumes "plr = 1 \<or> plr = 2"
    and "get_outcome R (mirror brd) = swap_marker (get_outcome R brd)"
    and "\<forall>i j. is_any_line_at R (mirror brd) i j = is_any_line_at R brd i j"
  shows "heuristics R (mirror brd) (swap_marker plr) = heuristics R brd plr"
proof -
  have wm: "w (mirror brd) = w brd" and pm: "player (mirror brd) = swap_marker (player brd)"
    by (simp_all add: mirror_def)
  have s12: "swap_marker 1 = 2" "swap_marker 2 = 1"
    by (simp_all add: swap_marker_def)
  note sc = scan_i_mirror [OF assms(3), of 1 2] scan_i_mirror [OF assms(3), of 2 1]
  from assms(1) show ?thesis
  proof
    assume "plr = 1"
    then show ?thesis
      using sc swap_marker_eq_iff [of "get_outcome R brd" 1] swap_marker_eq_iff [of "get_outcome R brd" 2]
        swap_marker_eq_iff [of "player brd" 1] swap_marker_eq_iff [of "player brd" 2]
      by (simp add: heuristics_def assms(2) wm pm s12)
  next
    assume "plr = 2"
    then show ?thesis
      using sc swap_marker_eq_iff [of "get_outcome R brd" 1] swap_marker_eq_iff [of "get_outcome R brd" 2]
        swap_marker_eq_iff [of "player brd" 1] swap_marker_eq_iff [of "player brd" 2]
      by (simp add: heuristics_def assms(2) wm pm s12)
  qed
qed


text \<open>
  The rules engine for concrete boards is colour-symmetric: on every board it reports the
  exchanged outcome and the same answer about lines for the mirror.
\<close>

lemma token_at_mirror: "token_at (mirror brd) x y = map_option swap_marker (token_at brd x y)"
  by (simp add: token_at_def mirror_def)

lemma token_at_mirror_eq:
  "token_at (mirror brd) x y = Some (swap_marker t) \<longleftrightarrow> token_at brd x y = Some t"
  by (cases "token_at brd x y") (simp_all add: token_at_mirror swap_marker_eq_iff)

lemma token_at_mirror_zero:
  "token_at (mirror brd) x y = Some 0 \<longleftrightarrow> token_at brd x y = Some 0"
  by (cases "token_at brd x y") (simp_all add: token_at_mirror swap_marker_zero)

lemma open_line_mirror: "open_line (mirror brd) (swap_marker t) cs = open_line brd t cs"
  by (simp add: open_line_def token_at_mirror_eq token_at_mirror_zero)

lemma connect_is_any_line_at_mirror:
  "connect_is_any_line_at n (mirror brd) x y = connect_is_any_line_at n brd x y"
proof (cases "token_at brd (int x) (int y)")
  case None
  then have "token_at (mirror brd) (int x) (int y) = None"
    by (simp add: token_at_mirror)
  with None show ?thesis
    by (simp add: connect_is_any_line_at_def)
next
  case (Some t)
  then have "token_at (mirror brd) (int x) (int y) = Some (swap_marker t)"
    by (simp add: token_at_mirror)
  with Some show ?thesis
    by (simp add: connect_is_any_line_at_def open_line_mirror)
qed

lemma wins_at_mirror: "wins_at n (mirror brd) x y = wins_at n brd x y"
proof (cases "token_at brd (int x) (int y)")
  case None
  then have "token_at (mirror brd) (int x) (int y) = None"
    by (simp add: token_at_mirror)
  with None show ?thesis
    by (simp add: wins_at_def)
next
  case (Some t)
  then have m: "token_at (mirror brd) (int x) (int y) = Some (swap_marker t)"
    by (simp add: token_at_mirror)
  show ?thesis
    unfolding wins_at_def m Some option.case
    by (simp add: token_at_mirror_eq swap_marker_zero)
qed

lemma wins_at_board:
  assumes "wins_at n brd x y"
  shows "board (mirror brd) ! y ! x = swap_marker (board brd ! y ! x)"
proof -
  from assms have "token_at brd (int x) (int y) \<noteq> None"
    by (auto simp: wins_at_def split: option.splits)
  then have "y < length (board brd)" and "x < length (board brd ! y)"
    by (auto simp: token_at_def split: if_splits)
  then show ?thesis
    by (simp add: mirror_def)
qed

lemma first_win_mirror: "first_win n (mirror brd) cs = swap_marker (first_win n brd cs)"
  by (induction cs) (simp_all add: wins_at_mirror wins_at_board swap_marker_def)

lemma connect_outcome_mirror:
  "connect_outcome n (mirror brd) = swap_marker (connect_outcome n brd)"
proof -
  have "w (mirror brd) = w brd" and "h (mirror brd) = h brd"
    by (simp_all add: mirror_def)
  then show ?thesis
    by (simp add: connect_outcome_def first_win_mirror)
qed

theorem heuristics_mirror_witness:
  "heuristics (connect 3) mid_board 1 = Inr (- 4) \<and>
   heuristics (connect 3) (mirror mid_board) 2 = Inr (- 4) \<and>
   mirror mid_board = \<lparr>board = [[2, 1, 2, 1, 2], [2, 0, 0, 0, 1]], w = 5, h = 2, player = 1\<rparr>"
proof -
  have o: "get_outcome (connect 3) (mirror mid_board) = swap_marker (get_outcome (connect 3) mid_board)"
    by (simp add: connect_def connect_outcome_mirror)
  have l: "\<forall>i j. is_any_line_at (connect 3) (mirror mid_board) i j
                 = is_any_line_at (connect 3) mid_board i j"
    by (simp add: connect_def connect_is_any_line_at_mirror)
  have s: "swap_marker 1 = 2"
    by (simp add: swap_marker_def)
  have v: "heuristics (connect 3) mid_board 1 = Inr (- 4)"
    by code_simp
  have m: "mirror mid_board = \<lparr>board = [[2, 1, 2, 1, 2], [2, 0, 0, 0, 1]], w = 5, h = 2, player = 1\<rparr>"
    by code_simp
  from heuristics_mirror [of 1 "connect 3" mid_board, OF _ o l] s v
  have "heuristics (connect 3) (mirror mid_board) 2 = Inr (- 4)"
    by simp
  with v m show ?thesis by simp
qed

subsection \<open>Successors\<close>

lemma succ_loop_st_closed:
  assumes "brd < length st"
  shows "succ_loop_st R brd cols st succ =
           (st @ map (add_token R (st ! brd)) cols,
            succ @ zip [length st..<length st + length cols] cols)"
  using assms
proof (induction cols arbitrary: st succ)
  case Nil
  then show ?case by simp
next
  case (Cons col cols)
  let ?st2 = "st @ [add_token R (st ! brd) col]"
  have step: "add_token_st R (st @ [st ! brd]) (length st) col = ?st2"
    by (simp add: add_token_st_def)
  have b: "brd < length ?st2" and c: "?st2 ! brd = st ! brd"
    using Cons.prems by (simp_all add: nth_append)
  have "succ_loop_st R brd (col # cols) st succ =
          succ_loop_st R brd cols ?st2 (succ @ [(length st, col)])"
    by (simp add: copy_def step)
  also have "\<dots> = (?st2 @ map (add_token R (st ! brd)) cols,
       (succ @ [(length st, col)]) @ zip [length ?st2..<length ?st2 + length cols] cols)"
    using Cons.IH [OF b] by (simp only: c)
  also have "\<dots> = (st @ map (add_token R (st ! brd)) (col # cols),
       succ @ zip [length st..<length st + length (col # cols)] (col # cols))"
  proof -
    have "[length st..<length st + length (col # cols)] =
            length st # [length ?st2..<length ?st2 + length cols]"
      by (subst upt_rec) simp
    then show ?thesis by simp
  qed
  finally show ?case .
qed

lemma get_successors_st_closed:
  assumes "brd < length st"
  shows "get_successors_st R st brd =
           (st @ map (add_token R (st ! brd)) (free_cols R (st ! brd)),
            zip [length st..<length st + length (free_cols R (st ! brd))]
                (free_cols R (st ! brd)))"
  using assms by (simp add: get_successors_st_def succ_loop_st_closed Let_def)

lemma succ_loop_closed:
  "succ_loop R brd cols succ = succ @ map (\<lambda>col. (add_token R brd col, col)) cols"
  by (induction cols arbitrary: succ) simp_all

lemma get_successors_closed:
  "get_successors R brd = map (\<lambda>col. (add_token R brd col, col)) (free_cols R brd)"
  by (simp add: get_successors_def succ_loop_closed Let_def)

lemma get_successors_st_contents:
  assumes "brd < length st"
  shows "map (\<lambda>s. (fst (get_successors_st R st brd) ! fst s, snd s))
             (snd (get_successors_st R st brd))
         = get_successors R (st ! brd)"
proof -
  let ?fc = "free_cols R (st ! brd)"
  have "map (\<lambda>s. ((st @ map (add_token R (st ! brd)) ?fc) ! fst s, snd s))
            (zip [length st..<length st + length ?fc] ?fc)
        = map (\<lambda>col. (add_token R (st ! brd) col, col)) ?fc"
    by (rule nth_equalityI) (simp_all add: nth_append)
  then show ?thesis
    using assms by (simp add: get_successors_st_closed get_successors_closed)
qed

text \<open>
  Claim C9. \<open>get_successors\<close>, called on the board object at address \<open>brd\<close> of the store,
  returns the empty list exactly when the board has no free column. Otherwise the columns
  of the successors are the free columns in the order the rules engine lists them; the
  successors are freshly allocated objects, one per free column and all different; each
  holds the board with a token added in its column; and every object that existed before
  the call, the input board among them, is unchanged.
\<close>

theorem get_successors_st_spec:
  assumes "brd < length st"
    and "get_successors_st R st brd = (st', succ)"
  shows "(succ = [] \<longleftrightarrow> free_cols R (st ! brd) = []) \<and>
         map snd succ = free_cols R (st ! brd) \<and>
         map fst succ = [length st..<length st + length succ] \<and>
         length st' = length st + length succ \<and>
         (\<forall>k < length succ. st' ! fst (succ ! k) = add_token R (st ! brd) (snd (succ ! k))) \<and>
         take (length st) st' = st \<and>
         st' ! brd = st ! brd"
proof -
  let ?fc = "free_cols R (st ! brd)"
  from assms have st': "st' = st @ map (add_token R (st ! brd)) ?fc"
    and succ: "succ = zip [length st..<length st + length ?fc] ?fc"
    by (simp_all add: get_successors_st_closed)
  have len: "length succ = length ?fc"
    by (simp add: succ)
  have 1: "succ = [] \<longleftrightarrow> ?fc = []"
    using len by (metis length_0_conv)
  have 2: "map snd succ = ?fc"
    by (simp add: succ)
  have 3: "map fst succ = [length st..<length st + length succ]"
    by (simp add: succ)
  have 4: "length st' = length st + length succ"
    by (simp add: st' len)
  have 5: "\<forall>k < length succ. st' ! fst (succ ! k) = add_token R (st ! brd) (snd (succ ! k))"
    by (simp add: st' succ nth_append)
  have 6: "take (length st) st' = st"
    by (simp add: st')
  have 7: "st' ! brd = st ! brd"
    using assms(1) by (simp add: st' nth_append)
  from 1 2 3 4 5 6 7 show ?thesis by blast
qed

theorem get_successors_st_spec_witness:
  "get_successors_st (connect 3) [nearly_full] 0 =
     ([nearly_full, connect_add_token nearly_full 0, connect_add_token nearly_full 2],
      [(1, 0), (2, 2)]) \<and>
   free_cols (connect 3) nearly_full = [0, 2] \<and>
   get_successors_st (connect 3) [full_board] 0 = ([full_board], []) \<and>
   free_cols (connect 3) full_board = []"
proof -
  have e: "get_successors_st (connect 3) [nearly_full] 0 =
     ([nearly_full, connect_add_token nearly_full 0, connect_add_token nearly_full 2],
      [(1, 0), (2, 2)])"
    by code_simp
  have f: "get_successors_st (connect 3) [full_board] 0 = ([full_board], [])"
    by code_simp
  from get_successors_st_spec [OF _ e]
  have "map snd [(1, 0), (2, 2)] = free_cols (connect 3) ([nearly_full] ! 0)"
    by simp
  then have a: "free_cols (connect 3) nearly_full = [0, 2]"
    by simp
  from get_successors_st_spec [OF _ f]
  have "map snd [] = free_cols (connect 3) ([full_board] ! 0)"
    by simp
  then have b: "free_cols (connect 3) full_board = []"
    by simp
  from e f a b show ?thesis by simp
qed

subsection \<open>The cutoff of minValue\<close>

text \<open>
  \<open>min_examined\<close> counts the iterations of \<open>min_loop\<close>: the loop's result is the result of
  the loop over the examined successors alone.
\<close>

lemma min_examined_prefix:
  "min_examined R ss d alpha beta plr wm \<le> length ss \<and>
   min_loop R ss d alpha beta plr wm wb =
     min_loop R (take (min_examined R ss d alpha beta plr wm) ss) d alpha beta plr wm wb"
proof (induction ss arbitrary: alpha wm wb)
  case Nil
  then show ?case by simp
next
  case (Cons i rest)
  show ?case
  proof (cases "maxValue R (fst i) d alpha beta plr")
    case (Inl e)
    then show ?thesis
      by (simp del: maxValue.simps)
  next
    case (Inr r)
    obtain bd move where r: "r = (bd, move)"
      by (cases r)
    let ?wm = "if move < wm then move else wm"
    let ?wb = "if move < wm then Some i else wb"
    let ?al = "if ?wm \<le> alpha then ?wm else alpha"
    show ?thesis
    proof (cases "?wm \<le> beta")
      case True
      then show ?thesis
        by (simp add: Inr r Let_def del: maxValue.simps)
    next
      case False
      from Cons.IH [of ?al ?wm ?wb] False show ?thesis
        by (simp add: Inr r Let_def del: maxValue.simps)
    qed
  qed
qed

text \<open>
  The evaluator returns at most 99999999 on a board of at most 99999999 cells, and so do
  both searchers as long as the search stays on the board.
\<close>

lemma scan_j_upper:
  "scan_j R brd me opponent i js s = Inr s' \<Longrightarrow> s' \<le> s + int (length js)"
proof (induction js arbitrary: s)
  case Nil
  then show ?case by simp
next
  case (Cons j js)
  from Cons.prems obtain t where "scan_j R brd me opponent i js t = Inr s'" and "t \<le> s + 1"
    by (auto split: sum.splits if_splits)
  with Cons.IH [of t] show ?case
    by simp
qed

lemma scan_i_upper:
  "scan_i R brd me opponent ics s = Inr s' \<Longrightarrow> s' \<le> s + int (length ics * h brd)"
proof (induction ics arbitrary: s)
  case Nil
  then show ?case by simp
next
  case (Cons i ics)
  from Cons.prems obtain t where t: "scan_j R brd me opponent i [0..<h brd] s = Inr t"
    and r: "scan_i R brd me opponent ics t = Inr s'"
    by (auto split: sum.splits)
  from scan_j_upper [OF t] have "t \<le> s + int (h brd)"
    by simp
  with Cons.IH [OF r] show ?case
    by (simp add: algebra_simps)
qed

lemma heuristics_upper:
  assumes "heuristics R brd plr = Inr v" and "int (w brd * h brd) \<le> 99999999"
  shows "v \<le> 99999999"
proof -
  let ?me = "if plr = 1 then 1 else (2::int)"
  let ?op = "if plr = 1 then 2 else (1::int)"
  have hd: "heuristics R brd plr =
      (if get_outcome R brd = ?me \<and> player brd = ?op then Inr 99999999
       else if get_outcome R brd = ?op \<and> player brd = ?me then Inr (- 99999999)
       else scan_i R brd ?me ?op [0..<w brd] 0)"
    unfolding heuristics_def Let_def ..
  show ?thesis
  proof (cases "get_outcome R brd = ?me \<and> player brd = ?op")
    case True
    with assms(1) hd show ?thesis by simp
  next
    case win: False
    show ?thesis
    proof (cases "get_outcome R brd = ?op \<and> player brd = ?me")
      case True
      with win assms(1) hd show ?thesis by simp
    next
      case False
      have "heuristics R brd plr = scan_i R brd ?me ?op [0..<w brd] 0"
        unfolding hd by (simp only: win False if_False)
      with assms(1) have "scan_i R brd ?me ?op [0..<w brd] 0 = Inr v"
        by (simp only:)
      from scan_i_upper [OF this] have "v \<le> int (w brd * h brd)"
        by simp
      with assms(2) show ?thesis
        by linarith
    qed
  qed
qed

lemma max_loop_upper:
  assumes "max_loop R ss d alpha beta plr bm bb = Inr (bd, v)"
    and "bm \<le> 99999999"
    and "\<And>s a b x y. s \<in> set ss \<Longrightarrow> minValue R (fst s) d a b plr = Inr (x, y) \<Longrightarrow> y \<le> 99999999"
  shows "v \<le> 99999999"
  using assms
proof (induction ss arbitrary: alpha bm bb)
  case Nil
  then show ?case by simp
next
  case (Cons i rest)
  from Cons.prems(1) obtain x move where m: "minValue R (fst i) d alpha beta plr = Inr (x, move)"
    by (auto simp del: minValue.simps split: sum.splits)
  from Cons.prems(3) [OF _ m] have mv: "move \<le> 99999999"
    by simp
  let ?bm = "if move > bm then move else bm"
  let ?bb = "if move > bm then Some i else bb"
  from mv Cons.prems(2) have b: "?bm \<le> 99999999"
    by simp
  show ?case
  proof (cases "?bm \<ge> beta")
    case True
    with Cons.prems(1) m have "v = ?bm"
      by (simp add: Let_def del: minValue.simps)
    with b show ?thesis by simp
  next
    case False
    with Cons.prems(1) m
    have l: "max_loop R rest d (if ?bm \<ge> alpha then ?bm else alpha) beta plr ?bm ?bb
               = Inr (bd, v)"
      by (simp add: Let_def del: minValue.simps)
    have r: "y \<le> 99999999"
      if "s \<in> set rest" and "minValue R (fst s) d a b plr = Inr (x, y)" for s a b x y
      using Cons.prems(3) [of s a b x y] that by (simp del: minValue.simps)
    show ?thesis
      by (rule Cons.IH [OF l b r])
  qed
qed

lemma min_loop_le_start:
  "min_loop R ss d alpha beta plr wm wb = Inr (bd, v) \<Longrightarrow> v \<le> wm"
proof (induction ss arbitrary: alpha wm wb)
  case Nil
  then show ?case by simp
next
  case (Cons i rest)
  from Cons.prems obtain x move where m: "maxValue R (fst i) d alpha beta plr = Inr (x, move)"
    by (auto simp del: maxValue.simps split: sum.splits)
  let ?wm = "if move < wm then move else wm"
  let ?wb = "if move < wm then Some i else wb"
  have le: "?wm \<le> wm"
    by simp
  show ?case
  proof (cases "?wm \<le> beta")
    case True
    with Cons.prems m have "v = ?wm"
      by (simp add: Let_def del: maxValue.simps)
    with le show ?thesis by simp
  next
    case False
    with Cons.prems m
    have "min_loop R rest d (if ?wm \<le> alpha then ?wm else alpha) beta plr ?wm ?wb = Inr (bd, v)"
      by (simp add: Let_def del: maxValue.simps)
    from Cons.IH [OF this] le show ?thesis
      by linarith
  qed
qed

lemma min_loop_upper:
  assumes "min_loop R (i # rest) d alpha beta plr wm wb = Inr (bd, v)"
    and "\<And>a b x y. maxValue R (fst i) d a b plr = Inr (x, y) \<Longrightarrow> y \<le> 99999999"
  shows "v \<le> 99999999"
proof -
  from assms(1) obtain x move where m: "maxValue R (fst i) d alpha beta plr = Inr (x, move)"
    by (auto simp del: maxValue.simps split: sum.splits)
  from assms(2) [OF m] have mv: "move \<le> 99999999" .
  let ?wm = "if move < wm then move else wm"
  let ?wb = "if move < wm then Some i else wb"
  from mv have b: "?wm \<le> 99999999 \<or> \<not> ?wm \<le> beta \<or> True"
    by simp
  show ?thesis
  proof (cases "?wm \<le> beta")
    case True
    with assms(1) m have v: "v = ?wm"
      by (simp add: Let_def del: maxValue.simps)
    show ?thesis
    proof (cases "move < wm")
      case True
      with v mv show ?thesis by simp
    next
      case False
      with v mv show ?thesis by simp
    qed
  next
    case False
    with assms(1) m
    have "min_loop R rest d (if ?wm \<le> alpha then ?wm else alpha) beta plr ?wm ?wb = Inr (bd, v)"
      by (simp add: Let_def del: maxValue.simps)
    from min_loop_le_start [OF this] have "v \<le> ?wm" .
    with mv show ?thesis
      by (simp split: if_splits)
  qed
qed


lemma search_upper:
  assumes "within_board R brd d"
  shows "(maxValue R brd d a b plr = Inr (x, y) \<longrightarrow> y \<le> 99999999) \<and>
         (minValue R brd d a b plr = Inr (x, y) \<longrightarrow> y \<le> 99999999)"
  using assms
proof (induction d arbitrary: brd a b x y)
  case 0
  then have sz: "int (w brd * h brd) \<le> 99999999"
    by simp
  have "y \<le> 99999999" if "heuristics R brd plr = Inr y"
    using that sz by (rule heuristics_upper)
  then show ?case
    by (auto simp: terminalCondition_def split: sum.splits)
next
  case (Suc d)
  from Suc.prems obtain i rest where gs: "get_successors R brd = i # rest"
    and al: "\<forall>s \<in> set (i # rest). within_board R (fst s) d"
    by (cases "get_successors R brd") (auto simp: list_all_iff)
  have mx: "maxValue R brd (Suc d) a b plr =
      max_loop R (i # rest) d a b plr (- 999999999) None"
    by (simp add: terminalCondition_def gs del: max_loop.simps)
  have mn: "minValue R brd (Suc d) a b plr =
      min_loop R (i # rest) d a b plr 999999999 None"
    by (simp add: terminalCondition_def gs del: min_loop.simps)
  have c1: "v \<le> 99999999"
    if "s \<in> set (i # rest)" and "minValue R (fst s) d a' b' plr = Inr (u, v)" for s a' b' u v
    using Suc.IH [of "fst s" a' b' u v] al that by blast
  have c2: "v \<le> 99999999"
    if "maxValue R (fst i) d a' b' plr = Inr (u, v)" for a' b' u v
    using Suc.IH [of "fst i" a' b' u v] al that by simp
  have "y \<le> 99999999" if "maxValue R brd (Suc d) a b plr = Inr (x, y)"
  proof -
    from that mx have "max_loop R (i # rest) d a b plr (- 999999999) None = Inr (x, y)"
      by (simp only:)
    then show ?thesis
      by (rule max_loop_upper) (simp, rule c1)
  qed
  moreover have "y \<le> 99999999" if "minValue R brd (Suc d) a b plr = Inr (x, y)"
  proof -
    from that mn have "min_loop R (i # rest) d a b plr 999999999 None = Inr (x, y)"
      by (simp only:)
    then show ?thesis
      by (rule min_loop_upper) (rule c2)
  qed
  ultimately show ?case
    by blast
qed

text \<open>
  As long as the search below the first successor stays on the board, \<open>minValue\<close> with
  \<open>beta = 99999999\<close> examines the first successor only.
\<close>

lemma minValue_first_successor_only:
  assumes "0 < n"
    and "get_successors R brd = s # rest"
    and "within_board R (fst s) (n - 1)"
  shows "minValue R brd n alpha 99999999 plr =
           (case maxValue R (fst s) (n - 1) alpha 99999999 plr of
              Inl e \<Rightarrow> Inl e
            | Inr (bd, v) \<Rightarrow> Inr (Some s, v)) \<and>
         minValue_examined R brd n alpha 99999999 plr = 1"
proof -
  from assms(1) have t: "terminalCondition n \<noteq> Some (- 1)"
    by (simp add: terminalCondition_def)
  have mn: "minValue R brd n alpha 99999999 plr =
      min_loop R (s # rest) (n - 1) alpha 99999999 plr 999999999 None"
    using t by (simp add: assms(2) del: min_loop.simps)
  have ex: "minValue_examined R brd n alpha 99999999 plr =
      min_examined R (s # rest) (n - 1) alpha 99999999 plr 999999999"
    using t by (simp add: assms(2) minValue_examined_def del: min_examined.simps)
  show ?thesis
  proof (cases "maxValue R (fst s) (n - 1) alpha 99999999 plr")
    case (Inl e)
    then show ?thesis
      unfolding mn ex by (simp del: maxValue.simps)
  next
    case (Inr r)
    obtain bd v where r: "r = (bd, v)"
      by (cases r)
    from search_upper [OF assms(3), of alpha 99999999 plr bd v] Inr r
    have "v \<le> 99999999"
      by simp
    with Inr r show ?thesis
      unfolding mn ex by (simp del: maxValue.simps)
  qed
qed

lemma minValue_first_successor_only_example:
  "minValue_examined (connect 3) win_in_one 3 (- 99999999) 99999999 1 = 1 \<and>
   length (get_successors (connect 3) win_in_one) = 4"
proof -
  have gs: "get_successors (connect 3) win_in_one =
      (connect_add_token win_in_one 0, 0) # tl (get_successors (connect 3) win_in_one)"
    by code_simp
  have wb: "within_board (connect 3) (fst (connect_add_token win_in_one 0, 0 :: nat)) (3 - 1)"
    by code_simp
  have l: "length (get_successors (connect 3) win_in_one) = 4"
    by code_simp
  from minValue_first_successor_only [OF _ gs wb] l show ?thesis
    by simp
qed

text \<open>
  When the first successor scores above 99999999 and there is a second successor, the
  loop goes on to it.
\<close>

lemma min_examined_nonempty: "1 \<le> min_examined R (i # rest) d alpha beta plr wm"
  by (simp add: Let_def del: maxValue.simps split: sum.split prod.split)

lemma minValue_goes_on:
  assumes "0 < n"
    and "get_successors R brd = s # s2 # rest"
    and "maxValue R (fst s) (n - 1) alpha 99999999 plr = Inr (bd, v)"
    and "99999999 < v"
  shows "2 \<le> minValue_examined R brd n alpha 99999999 plr"
proof -
  from assms(1) have t: "terminalCondition n \<noteq> Some (- 1)"
    by (simp add: terminalCondition_def)
  let ?wm = "if v < 999999999 then v else 999999999"
  let ?al = "if ?wm \<le> alpha then ?wm else alpha"
  from assms(4) have "\<not> ?wm \<le> 99999999"
    by simp
  with assms(3) have "min_examined R (s # s2 # rest) (n - 1) alpha 99999999 plr 999999999 =
      1 + min_examined R (s2 # rest) (n - 1) ?al 99999999 plr ?wm"
    by (simp add: Let_def del: maxValue.simps)
  with min_examined_nonempty [of R s2 rest "n - 1" ?al 99999999 plr ?wm]
  have "2 \<le> min_examined R (s # s2 # rest) (n - 1) alpha 99999999 plr 999999999"
    by linarith
  with t show ?thesis
    by (simp add: assms(2) minValue_examined_def del: min_examined.simps)
qed


subsection \<open>The searcher against plain minimax\<close>

text \<open>
  Claim C1 (fails on the code). On the board \<open>threat\<close>, with player 2 to move and player 1
  the root player, \<open>minValue\<close> at depth 1 with the full window returns the positional
  score -8 of the first successor, while plain minimax returns -99999999: the second
  successor is a win for player 2. On the board \<open>double_threat\<close>, \<open>maxValue\<close> at depth 2
  with the full window returns -8, while plain minimax returns -99999999.
\<close>

theorem pruned_search_differs_from_minimax:
  "column_score (minValue (connect 3) threat 1 (- 99999999) 99999999 1) = Inr (Some 0, - 8) \<and>
   minimax_min (connect 3) threat 1 1 = Inr (- 99999999) \<and>
   column_score (maxValue (connect 3) double_threat 2 (- 99999999) 99999999 1)
     = Inr (Some 0, - 8) \<and>
   minimax_max (connect 3) double_threat 2 1 = Inr (- 99999999)"
  by code_simp

text \<open>
  Claim C5 (fails on the code). On the board \<open>threat\<close> at depth 1 with
  \<open>alpha = -99999999\<close> and \<open>beta = 99999999\<close>, the running minimum after the first of the
  two successors is -8, which is above \<open>alpha\<close>; \<open>minValue\<close> stops there all the same and
  returns column 0 with -8, although the second successor scores -99999999.
\<close>

theorem minValue_stops_above_alpha:
  "map snd (get_successors (connect 3) threat) = [0, 3] \<and>
   map (\<lambda>s. column_score (maxValue (connect 3) (fst s) 0 (- 99999999) 99999999 1))
       (get_successors (connect 3) threat)
     = [Inr (None, - 8), Inr (None, - 99999999)] \<and>
   minValue_examined (connect 3) threat 1 (- 99999999) 99999999 1 = 1 \<and>
   column_score (minValue (connect 3) threat 1 (- 99999999) 99999999 1) = Inr (Some 0, - 8)"
  by code_simp

subsection \<open>The controller\<close>

text \<open>
  The search calls of \<open>makeMove\<close> are calls of \<open>minValue\<close> at the depths 0, 1, 2, ... in
  this order, up to some depth below \<open>max_depth\<close>, each with \<open>alpha = -99999999\<close>,
  \<open>beta = 99999999\<close> and the board's player to move.
\<close>

lemma makeMove_loop_calls:
  "\<exists>k \<le> length ds. snd (makeMove_loop R brd curTime ds bs bm calls) =
      calls @ map (\<lambda>i. (MinValue, i, - 99999999, 99999999, player brd)) (take k ds)"
proof (induction ds arbitrary: bs bm calls)
  case Nil
  then show ?case by simp
next
  case (Cons i rest)
  let ?c = "(MinValue, i, - 99999999, 99999999, player brd)"
  let ?f = "\<lambda>i. (MinValue, i, - 99999999, 99999999, player brd)"
  have "snd (makeMove_loop R brd curTime (i # rest) bs bm calls) = calls @ [?c] \<or>
        (\<exists>bs' bm'. makeMove_loop R brd curTime (i # rest) bs bm calls =
           makeMove_loop R brd curTime rest bs' bm' (calls @ [?c]))"
  proof (cases "minValue R brd i (- 99999999) 99999999 (player brd)")
    case (Inl e)
    then show ?thesis
      by (simp del: minValue.simps)
  next
    case (Inr r)
    obtain bd state where r: "r = (bd, state)"
      by (cases r)
    show ?thesis
    proof (cases "state \<ge> 9999999 \<or> state \<le> - 9999999 \<or> curTime i > 12")
      case True
      then have "snd (makeMove_loop R brd curTime (i # rest) bs bm calls) = calls @ [?c]"
        by (auto simp add: Inr r Let_def simp del: minValue.simps)
      then show ?thesis ..
    next
      case False
      then have "makeMove_loop R brd curTime (i # rest) bs bm calls =
          makeMove_loop R brd curTime rest (if state > bs then state else bs) (Result bd)
            (calls @ [?c])"
        by (simp add: Inr r Let_def del: minValue.simps)
      then show ?thesis by blast
    qed
  qed
  then consider
    (stop) "snd (makeMove_loop R brd curTime (i # rest) bs bm calls) = calls @ [?c]"
  | (go) bs' bm' where "makeMove_loop R brd curTime (i # rest) bs bm calls =
        makeMove_loop R brd curTime rest bs' bm' (calls @ [?c])"
    by blast
  then show ?case
  proof cases
    case stop
    have "calls @ [?c] = calls @ map ?f (take 1 (i # rest))"
      by simp
    with stop have "snd (makeMove_loop R brd curTime (i # rest) bs bm calls) =
        calls @ map ?f (take 1 (i # rest))"
      by (simp only:)
    moreover have "1 \<le> length (i # rest)"
      by simp
    ultimately show ?thesis
      by blast
  next
    case go
    from Cons.IH [of bs' bm' "calls @ [?c]"]
    obtain k where k: "k \<le> length rest"
      and s: "snd (makeMove_loop R brd curTime rest bs' bm' (calls @ [?c])) =
             (calls @ [?c]) @ map ?f (take k rest)"
      by blast
    have "(calls @ [?c]) @ map ?f (take k rest) = calls @ map ?f (take (Suc k) (i # rest))"
      by simp
    with go s have "snd (makeMove_loop R brd curTime (i # rest) bs bm calls) =
             calls @ map ?f (take (Suc k) (i # rest))"
      by (simp only:)
    moreover from k have "Suc k \<le> length (i # rest)"
      by simp
    ultimately show ?thesis
      by blast
  qed
qed

lemma makeMove_calls_depths:
  "\<exists>k \<le> nat max_depth. makeMove_calls R max_depth curTime brd =
      map (\<lambda>i. (MinValue, i, - 99999999, 99999999, player brd)) [0..<k]"
proof -
  from makeMove_loop_calls [of "[0..<nat max_depth]" R brd curTime 0 "Initial 0" "[]"]
  obtain k where k: "k \<le> nat max_depth"
    and c: "makeMove_calls R max_depth curTime brd =
      map (\<lambda>i. (MinValue, i, - 99999999, 99999999, player brd)) (take k [0..<nat max_depth])"
    by (auto simp: makeMove_calls_def makeMove_logged_def)
  from k have "take k [0..<nat max_depth] = [0..<k]"
    by simp
  with k c show ?thesis
    by auto
qed

text \<open>
  Claim C2 (fails on the code). Each of these boards has a free column, and \<open>makeMove\<close>
  raises TypeError on it: on the nearly full 3 x 3 board with the agent's maximum depth of
  7, where the search at depth 1 returns column 0 and the search at depth 3 returns no
  successor with the score 999999999; and on the
  board \<open>win_in_one\<close> with a maximum depth of 1, where the only search runs at depth 0 and
  returns no successor.
\<close>

theorem makeMove_raises:
  "free_cols (connect 3) nearly_full = [0, 2] \<and>
   column_score (minValue (connect 3) nearly_full 1 (- 99999999) 99999999 2)
     = Inr (Some 0, 0) \<and>
   column_score (minValue (connect 3) nearly_full 3 (- 99999999) 99999999 2)
     = Inr (None, 999999999) \<and>
   makeMove (connect 3) 7 fast nearly_full = Inl TypeError \<and>
   free_cols (connect 3) win_in_one = [0, 1, 2, 3] \<and>
   makeMove (connect 3) 1 fast win_in_one = Inl TypeError"
  by code_simp

text \<open>
  Claim C3 (fails on the code). On the board \<open>win_in_one\<close>, where player 1 is to move and
  column 3 wins at once, the search calls of \<open>makeMove\<close> are calls of \<open>minValue\<close>, with the
  player to move as root player. The call at depth 1 returns column 0 with the score -8;
  a maximizing node returns column 3 with the WIN sentinel. With the agent's maximum
  depth of 7, \<open>makeMove\<close> returns column 0.
\<close>

theorem makeMove_root_is_minValue:
  "makeMove_calls (connect 3) 2 fast win_in_one =
     [(MinValue, 0, - 99999999, 99999999, 1), (MinValue, 1, - 99999999, 99999999, 1)] \<and>
   column_score (minValue (connect 3) win_in_one 1 (- 99999999) 99999999 1)
     = Inr (Some 0, - 8) \<and>
   column_score (maxValue (connect 3) win_in_one 1 (- 99999999) 99999999 1)
     = Inr (Some 3, 99999999) \<and>
   makeMove (connect 3) 7 fast win_in_one = Inr 0"
  by code_simp

text \<open>
  Claim C4 (fails on the code). With a maximum depth of 3 on the board \<open>win_in_one\<close>,
  \<open>makeMove\<close> searches at the depths 0, 1 and 2, not at 1, 2 and 3.
\<close>

theorem makeMove_depths_start_at_zero:
  "makeMove_calls (connect 3) 3 fast win_in_one =
     [(MinValue, 0, - 99999999, 99999999, 1),
      (MinValue, 1, - 99999999, 99999999, 1),
      (MinValue, 2, - 99999999, 99999999, 1)] \<and>
   player win_in_one = 1"
  by code_simp

end
